theory Spec2Isabelle
  imports Main "HOL-Library.AList"
begin

section \<open>Python values and the object store\<close>

text \<open>
  Event data are Python dictionaries and lists, which are mutable objects handed around
  by reference. A value is an immutable atom or a reference to an object of the store;
  the store is the list of all objects, an address being an index into it. Allocation
  appends to the store, and nothing is ever deallocated.
\<close>

type_synonym addr = nat

datatype pyval = PNone | PBool bool | PInt int | PStr string | PRef addr

datatype pyobj = PDict "(string \<times> pyval) list" | PList "pyval list"

type_synonym heap = "pyobj list"

definition obj_at :: "heap \<Rightarrow> addr \<Rightarrow> pyobj option" where
  "obj_at h a = (if a < length h then Some (h ! a) else None)"

fun refs_of_val :: "pyval \<Rightarrow> addr list" where
  "refs_of_val (PRef a) = [a]"
| "refs_of_val _ = []"

fun vals_of_obj :: "pyobj \<Rightarrow> pyval list" where
  "vals_of_obj (PDict kvs) = map snd kvs"
| "vals_of_obj (PList vs) = vs"

definition refs_of_obj :: "pyobj \<Rightarrow> addr list" where
  "refs_of_obj ob = concat (map refs_of_val (vals_of_obj ob))"

text \<open>The objects reachable from an address: the object graph of a payload.\<close>

inductive_set reach :: "heap \<Rightarrow> addr \<Rightarrow> addr set" for h :: heap and a :: addr where
  reach_root: "a \<in> reach h a"
| reach_step: "b \<in> reach h a \<Longrightarrow> b < length h \<Longrightarrow> c \<in> set (refs_of_obj (h ! b)) \<Longrightarrow> c \<in> reach h a"

subsection \<open>copy.deepcopy\<close>

text \<open>
  \<^verbatim>\<open>copy.deepcopy\<close> belongs to Python's standard library. It builds, from fresh
  objects only, a graph of the same shape as the one reachable from its argument
  (sharing and cycles included, through its memo table) and writes to no existing
  object. The model copies every object of the store to the address \<open>length h\<close>
  further on and redirects the references of the copies by the same offset: what is
  reachable from the copy of the argument is the deep copy that Python builds, the other
  copies are unreachable garbage.
\<close>

fun shift_val :: "nat \<Rightarrow> pyval \<Rightarrow> pyval" where
  "shift_val n (PRef a) = PRef (a + n)"
| "shift_val n v = v"

fun shift_obj :: "nat \<Rightarrow> pyobj \<Rightarrow> pyobj" where
  "shift_obj n (PDict kvs) = PDict (map (\<lambda>(k, v). (k, shift_val n v)) kvs)"
| "shift_obj n (PList vs) = PList (map (shift_val n) vs)"

definition deepcopy :: "heap \<Rightarrow> addr \<Rightarrow> heap \<times> addr" where
  "deepcopy h a = (h @ map (shift_obj (length h)) h, a + length h)"

section \<open>The collaborators of the event logger\<close>

text \<open>
  An exception is a value. \<open>Raised c\<close> stands for an exception of a class \<open>c\<close> that only
  collaborators raise (the registry's validation error, whatever a modifier raises).
\<close>

datatype error = TypeError | KeyError | ValueError | ModifierError | Raised string

subsection \<open>Callables and their signatures\<close>

text \<open>
  What \<^verbatim>\<open>inspect.signature\<close> returns: the parameters in order, each with its name,
  kind, default and annotation, and the return annotation. An annotation is named by
  the text of the annotating object; \<open>None\<close> is \<^verbatim>\<open>Parameter.empty\<close>.
\<close>

datatype param_kind =
  POSITIONAL_ONLY | POSITIONAL_OR_KEYWORD | VAR_POSITIONAL | KEYWORD_ONLY | VAR_KEYWORD

datatype parameter = Parameter
  (param_name: string) (kind: param_kind) (default: "pyval option") (annotation: "string option")

datatype signature = Signature (parameters: "parameter list") (return_annotation: "string option")

text \<open>
  An object passed as \<^verbatim>\<open>modifier\<close>: its identity, whether it is callable, whether
  it is hashable, what \<^verbatim>\<open>inspect.signature\<close> does for it (it returns the signature, or
  raises, as it does with \<^verbatim>\<open>ValueError\<close> for a callable without a retrievable signature
  such as \<^verbatim>\<open>dict\<close> or \<^verbatim>\<open>max\<close>), and what a call
  \<^verbatim>\<open>modifier(schema_id=..., version=..., data=...)\<close> does: it may mutate the store,
  and returns a reference or raises.
\<close>

record modifier =
  mod_id :: nat
  mod_callable :: bool
  mod_hashable :: bool
  mod_signature :: "error + signature"
  mod_call :: "string \<Rightarrow> int \<Rightarrow> heap \<Rightarrow> addr \<Rightarrow> (error + addr) \<times> heap"

text \<open>The signature of the local function \<^verbatim>\<open>modifier_signature\<close> of \<^verbatim>\<open>add_modifier\<close>.\<close>

definition expected_signature :: signature where
  "expected_signature = Signature
     [Parameter ''schema_id'' POSITIONAL_OR_KEYWORD None (Some ''str''),
      Parameter ''version'' POSITIONAL_OR_KEYWORD None (Some ''int''),
      Parameter ''data'' POSITIONAL_OR_KEYWORD None (Some ''dict'')]
     (Some ''dict'')"

subsection \<open>The schema registry\<close>

text \<open>
  Modelled from the spec: the class \<^verbatim>\<open>SchemaRegistry\<close> (module
  \<^verbatim>\<open>schema_registry\<close>) is not among the sources. The spec gives its interface:
  \<^verbatim>\<open>register(source) -> (id, version)\<close>, which may fail, \<^verbatim>\<open>contains(id, version) -> bool\<close>
  and \<^verbatim>\<open>validateAndRedact(id, version, data) -> error\<close>, which mutates \<^verbatim>\<open>data\<close> in
  place. The registry is a parameter of the model: \<open>'reg\<close> is the state of the registry
  object, \<open>'doc\<close> a schema document, and each method returns the registry's next state
  beside its result, so that a registry that counts its calls is an instance.
\<close>

record ('reg, 'doc) registry_ops =
  reg_register :: "'reg \<Rightarrow> 'doc \<Rightarrow> (error + string \<times> int) \<times> 'reg"
  reg_contains :: "'reg \<Rightarrow> string \<times> int \<Rightarrow> bool \<times> 'reg"
  reg_validate_event :: "'reg \<Rightarrow> string \<Rightarrow> int \<Rightarrow> heap \<Rightarrow> addr \<Rightarrow> error option \<times> 'reg \<times> heap"

subsection \<open>Time, warnings, handlers\<close>

text \<open>A \<^verbatim>\<open>datetime\<close> is represented by the text its \<^verbatim>\<open>isoformat()\<close> returns.\<close>

datatype datetime = Datetime (isoformat: string)

datatype warning_category = SchemaNotRegistered

text \<open>A \<^verbatim>\<open>logging.Handler\<close> is identified by a number.\<close>

type_synonym handler = nat

section \<open>The event logger\<close>

text \<open>
  The keys of the dictionary \<^verbatim>\<open>_modifiers\<close>: \<^verbatim>\<open>register_event_schema\<close>, \<^verbatim>\<open>add_modifier\<close>
  and \<^verbatim>\<open>emit\<close> index it by the tuple \<^verbatim>\<open>(schema_id, version)\<close>, \<^verbatim>\<open>remove_modifier\<close> by the
  string \<^verbatim>\<open>schema_id\<close>. A string and a tuple are never equal.
\<close>

datatype pykey = Key_tuple string int | Key_str string

text \<open>
  A Python \<^verbatim>\<open>set\<close> of modifiers is a list without repetition; Python leaves the
  iteration order of a set unspecified, and nothing below depends on the order chosen.
  A Python \<^verbatim>\<open>dict\<close> is an association list in insertion order; \<open>map_of\<close> reads it and
  \<open>AList.update\<close> is item assignment.
\<close>

type_synonym modifier_table = "(pykey \<times> modifier list) list"

type_synonym capsule = "(string \<times> pyval) list"

text \<open>
  The state: the object store, the logger's traits \<^verbatim>\<open>schemas\<close>, \<^verbatim>\<open>handlers\<close> (a list
  or \<^verbatim>\<open>None\<close>) and \<^verbatim>\<open>_modifiers\<close>, the handlers of the logger \<^verbatim>\<open>self.log\<close> and
  the records they were sent, and the process-wide state of the \<^verbatim>\<open>warnings\<close> module:
  the registry of the \<^verbatim>\<open>once\<close> action and the warnings shown so far.
\<close>

record 'reg state =
  store :: heap
  schemas :: 'reg
  handlers :: "handler list option"
  modifiers :: modifier_table
  log_handlers :: "handler list"
  log_records :: "(handler \<times> capsule) list"
  onceregistry :: "(string \<times> warning_category) list"
  shown_warnings :: "(warning_category \<times> string) list"

definition EVENTS_METADATA_VERSION :: int where
  "EVENTS_METADATA_VERSION = 1"

subsection \<open>register_event_schema\<close>

definition register_event_schema ::
  "('reg, 'doc) registry_ops \<Rightarrow> 'reg state \<Rightarrow> 'doc \<Rightarrow> error option \<times> 'reg state" where
  "register_event_schema ops st schema =
     (case reg_register ops (schemas st) schema of
        (Inl e, r) \<Rightarrow> (Some e, st\<lparr>schemas := r\<rparr>)
      | (Inr key, r) \<Rightarrow>
          (None, st\<lparr>schemas := r,
                    modifiers := AList.update (Key_tuple (fst key) (snd key)) [] (modifiers st)\<rparr>))"

subsection \<open>register_handler, remove_handler\<close>

text \<open>
  \<^verbatim>\<open>Logger.addHandler\<close> and \<^verbatim>\<open>Logger.removeHandler\<close> add an absent and remove a present
  handler. The membership tests on \<^verbatim>\<open>self.handlers\<close> raise \<^verbatim>\<open>TypeError\<close> when the
  trait is \<^verbatim>\<open>None\<close>.
\<close>

definition register_handler :: "'reg state \<Rightarrow> handler \<Rightarrow> error option \<times> 'reg state" where
  "register_handler st hdlr =
     (let st1 = st\<lparr>log_handlers :=
                  (if hdlr \<in> set (log_handlers st) then log_handlers st else log_handlers st @ [hdlr])\<rparr>
      in case handlers st1 of
           None \<Rightarrow> (Some TypeError, st1)
         | Some hs \<Rightarrow> (None, st1\<lparr>handlers := Some (if hdlr \<in> set hs then hs else hs @ [hdlr])\<rparr>))"


subsection \<open>add_modifier\<close>

text \<open>
  Membership in a set of callables goes by the identity of the object. \<^verbatim>\<open>set.add\<close>
  adds an absent element; \<^verbatim>\<open>set.remove\<close> raises \<^verbatim>\<open>KeyError\<close> on an absent element.
  Both hash their argument first and raise \<^verbatim>\<open>TypeError\<close> when it is not hashable.
\<close>

definition set_contains :: "modifier list \<Rightarrow> modifier \<Rightarrow> bool" where
  "set_contains ms m = (mod_id m \<in> set (map mod_id ms))"

definition set_with :: "modifier \<Rightarrow> modifier list \<Rightarrow> modifier list" where
  "set_with m ms = (if set_contains ms m then ms else ms @ [m])"

definition set_add :: "modifier \<Rightarrow> modifier list \<Rightarrow> error + modifier list" where
  "set_add m ms = (if \<not> mod_hashable m then Inl TypeError else Inr (set_with m ms))"

definition set_remove :: "modifier \<Rightarrow> modifier list \<Rightarrow> error + modifier list" where
  "set_remove m ms =
     (if \<not> mod_hashable m then Inl TypeError
      else if set_contains ms m then Inr (filter (\<lambda>x. mod_id x \<noteq> mod_id m) ms)
      else Inl KeyError)"

text \<open>The test \<^verbatim>\<open>schema_id and version\<close>: both given, the string not empty, the integer not 0.\<close>

definition scoped_key :: "string option \<Rightarrow> int option \<Rightarrow> (string \<times> int) option" where
  "scoped_key schema_id version =
     (case schema_id of
        None \<Rightarrow> None
      | Some sid \<Rightarrow>
          (case version of
             None \<Rightarrow> None
           | Some ver \<Rightarrow> if sid \<noteq> [] \<and> ver \<noteq> 0 then Some (sid, ver) else None))"

text \<open>
  The loop \<^verbatim>\<open>for (id, version) in self._modifiers\<close> over the keys. A tuple key unpacks
  into its components. A string key unpacks into its characters when there are two of
  them (\<^verbatim>\<open>ValueError\<close> otherwise), and then \<^verbatim>\<open>self._modifiers[(id, version)]\<close> looks
  up a tuple of two strings, which is no key of the table.
\<close>

fun add_to_matching ::
  "string option \<Rightarrow> modifier \<Rightarrow> pykey list \<Rightarrow> modifier_table \<Rightarrow> error option \<times> modifier_table" where
  "add_to_matching schema_id m [] tbl = (None, tbl)"
| "add_to_matching schema_id m (Key_tuple i v # ks) tbl =
     (if schema_id = None \<or> schema_id = Some i then
        (case map_of tbl (Key_tuple i v) of
           None \<Rightarrow> (Some KeyError, tbl)
         | Some ms \<Rightarrow>
             (case set_add m ms of
                Inl e \<Rightarrow> (Some e, tbl)
              | Inr ms' \<Rightarrow>
                  add_to_matching schema_id m ks (AList.update (Key_tuple i v) ms' tbl)))
      else add_to_matching schema_id m ks tbl)"
| "add_to_matching schema_id m (Key_str s # ks) tbl =
     (if length s \<noteq> 2 then (Some ValueError, tbl)
      else if schema_id = None \<or> schema_id = Some [s ! 0] then (Some KeyError, tbl)
      else add_to_matching schema_id m ks tbl)"

definition add_modifier ::
  "'reg state \<Rightarrow> string option \<Rightarrow> int option \<Rightarrow> modifier \<Rightarrow> error option \<times> 'reg state" where
  "add_modifier st schema_id version m =
     (if \<not> mod_callable m then (Some TypeError, st)
      else
        (case mod_signature m of
           Inl e \<Rightarrow> (Some e, st)
         | Inr signature \<Rightarrow>
             if signature = expected_signature then
               (case scoped_key schema_id version of
                  Some (sid, ver) \<Rightarrow>
                    (case map_of (modifiers st) (Key_tuple sid ver) of
                       None \<Rightarrow> (Some KeyError, st)
                     | Some ms \<Rightarrow>
                         (case set_add m ms of
                            Inl e \<Rightarrow> (Some e, st)
                          | Inr ms' \<Rightarrow>
                              (None, st\<lparr>modifiers :=
                                          AList.update (Key_tuple sid ver) ms' (modifiers st)\<rparr>)))
                | None \<Rightarrow>
                    (case add_to_matching schema_id m (map fst (modifiers st)) (modifiers st) of
                       (r, tbl) \<Rightarrow> (r, st\<lparr>modifiers := tbl\<rparr>)))
             else (Some ModifierError, st)))"

subsection \<open>remove_modifier\<close>

text \<open>
  The loop over \<^verbatim>\<open>self._modifiers.values()\<close>: each set is changed in place; the
  handler \<^verbatim>\<open>except ValueError: pass\<close> catches that class only, any other exception
  leaves the loop.
\<close>

fun remove_from_all :: "modifier \<Rightarrow> modifier_table \<Rightarrow> error option \<times> modifier_table" where
  "remove_from_all m [] = (None, [])"
| "remove_from_all m ((k, modifier_list) # rest) =
     (case set_remove m modifier_list of
        Inl e \<Rightarrow>
          (if e = ValueError then
             (case remove_from_all m rest of (r, rest') \<Rightarrow> (r, (k, modifier_list) # rest'))
           else (Some e, (k, modifier_list) # rest))
      | Inr ms' \<Rightarrow>
          (case remove_from_all m rest of (r, rest') \<Rightarrow> (r, (k, ms') # rest')))"

definition remove_modifier ::
  "'reg state \<Rightarrow> string option \<Rightarrow> modifier \<Rightarrow> error option \<times> 'reg state" where
  "remove_modifier st schema_id m =
     (case (case schema_id of None \<Rightarrow> None | Some sid \<Rightarrow> if sid \<noteq> [] then Some sid else None) of
        Some sid \<Rightarrow>
          (case map_of (modifiers st) (Key_str sid) of
             None \<Rightarrow> (Some KeyError, st)
           | Some ms \<Rightarrow>
               (case set_remove m ms of
                  Inl e \<Rightarrow> (Some e, st)
                | Inr ms' \<Rightarrow> (None, st\<lparr>modifiers := AList.update (Key_str sid) ms' (modifiers st)\<rparr>)))
      | None \<Rightarrow>
          (case remove_from_all m (modifiers st) of
             (r, tbl) \<Rightarrow> (r, st\<lparr>modifiers := tbl\<rparr>)))"

subsection \<open>The warning of an unregistered schema\<close>

text \<open>\<^verbatim>\<open>str\<close> of an integer, as the f-string of the warning formats \<^verbatim>\<open>version\<close>.\<close>

definition digit :: "nat \<Rightarrow> char" where
  "digit n = ''0123456789'' ! n"

fun str_nat :: "nat \<Rightarrow> string" where
  "str_nat n = (if n < 10 then [digit n] else str_nat (n div 10) @ [digit (n mod 10)])"

declare str_nat.simps [simp del]

definition str_int :: "int \<Rightarrow> string" where
  "str_int i = (if i < 0 then CHR ''-'' # str_nat (nat (- i)) else str_nat (nat i))"

definition not_registered_message :: "string \<Rightarrow> int \<Rightarrow> string" where
  "not_registered_message schema_id version =
     ''('' @ schema_id @ '', '' @ str_int version @
     '') has not been registered yet. If this was not intentional, please register the schema using the `register_event_schema` method.''"

text \<open>
  \<^verbatim>\<open>warnings.warn\<close> under the filter \<^verbatim>\<open>simplefilter("once", SchemaNotRegistered)\<close> that
  the module installs when it is imported: the \<^verbatim>\<open>once\<close> action shows a warning unless
  its text and category are in the once-registry already, and records them there.
\<close>

definition warn :: "string \<Rightarrow> warning_category \<Rightarrow> 'reg state \<Rightarrow> 'reg state" where
  "warn text category st =
     (if (text, category) \<in> set (onceregistry st) then st
      else st\<lparr>onceregistry := (text, category) # onceregistry st,
               shown_warnings := shown_warnings st @ [(category, text)]\<rparr>)"

subsection \<open>emit\<close>

fun apply_modifiers ::
  "modifier list \<Rightarrow> string \<Rightarrow> int \<Rightarrow> heap \<Rightarrow> addr \<Rightarrow> (error + addr) \<times> heap" where
  "apply_modifiers [] schema_id version h modified_data = (Inr modified_data, h)"
| "apply_modifiers (m # ms) schema_id version h modified_data =
     (case mod_call m schema_id version h modified_data of
        (Inl e, h') \<Rightarrow> (Inl e, h')
      | (Inr d, h') \<Rightarrow> apply_modifiers ms schema_id version h' d)"

text \<open>\<^verbatim>\<open>dict.update\<close> with the items of another dictionary.\<close>

definition dict_update :: "capsule \<Rightarrow> (string \<times> pyval) list \<Rightarrow> capsule" where
  "dict_update d other = fold (\<lambda>(k, v). AList.update k v) other d"

definition empty_capsule :: "datetime \<Rightarrow> string \<Rightarrow> int \<Rightarrow> capsule" where
  "empty_capsule timestamp schema_id version =
     [(''__timestamp__'', PStr (isoformat timestamp @ ''Z'')),
      (''__schema__'', PStr schema_id),
      (''__schema_version__'', PInt version),
      (''__metadata_version__'', PInt EVENTS_METADATA_VERSION)]"

text \<open>
  \<open>now\<close> is what \<^verbatim>\<open>datetime.utcnow()\<close> returns. The capsule is returned by value; its
  values may be references into the store. \<^verbatim>\<open>self.log.info(capsule)\<close> hands the capsule
  to every handler of \<^verbatim>\<open>self.log\<close>. Three calls of the standard library are taken to
  return: \<^verbatim>\<open>copy.deepcopy\<close> (the store holds dictionaries, lists and atoms, which it
  copies), \<^verbatim>\<open>timestamp.isoformat()\<close> (the timestamp is a \<^verbatim>\<open>datetime\<close>) and
  \<^verbatim>\<open>self.log.info\<close> (the handlers of the standard library catch the failures of their
  \<^verbatim>\<open>emit\<close> and pass them to \<^verbatim>\<open>handleError\<close>). The source has no handler around
  these calls: an exception that one of them lets escape would leave \<^verbatim>\<open>emit\<close>; the
  model has no such exception, and nothing below says that these calls cannot raise.
  \<^verbatim>\<open>capsule.update\<close> is modelled for a dictionary; for any other object the model raises
  \<^verbatim>\<open>TypeError\<close>, where Python, depending on the object, raises \<^verbatim>\<open>TypeError\<close> or
  \<^verbatim>\<open>ValueError\<close> or merges a sequence of pairs: the annotation \<^verbatim>\<open>dict\<close> of
  \<^verbatim>\<open>data\<close> and of a modifier's result excludes such objects.
\<close>

definition emit ::
  "('reg, 'doc) registry_ops \<Rightarrow> datetime \<Rightarrow> 'reg state \<Rightarrow> string \<Rightarrow> int \<Rightarrow> addr \<Rightarrow> datetime option
     \<Rightarrow> (error + capsule option) \<times> 'reg state" where
  "emit ops now st schema_id version data timestamp_override =
     (if handlers st = None \<or> handlers st = Some [] then (Inr None, st)
      else
        (case reg_contains ops (schemas st) (schema_id, version) of
           (known, r1) \<Rightarrow>
             if \<not> known then
               (Inr None,
                warn (not_registered_message schema_id version) SchemaNotRegistered
                  (st\<lparr>schemas := r1\<rparr>))
             else
               (case deepcopy (store st) data of
                  (h1, modified_data) \<Rightarrow>
                    (case map_of (modifiers st) (Key_tuple schema_id version) of
                       None \<Rightarrow> (Inl KeyError, st\<lparr>store := h1, schemas := r1\<rparr>)
                     | Some ms \<Rightarrow>
                         (case apply_modifiers ms schema_id version h1 modified_data of
                            (Inl e, h2) \<Rightarrow> (Inl e, st\<lparr>store := h2, schemas := r1\<rparr>)
                          | (Inr d, h2) \<Rightarrow>
                              (case reg_validate_event ops r1 schema_id version h2 d of
                                 (Some e, r2, h3) \<Rightarrow> (Inl e, st\<lparr>store := h3, schemas := r2\<rparr>)
                               | (None, r2, h3) \<Rightarrow>
                                   (let timestamp =
                                          (case timestamp_override of None \<Rightarrow> now | Some t \<Rightarrow> t);
                                        capsule = empty_capsule timestamp schema_id version
                                    in case obj_at h3 d of
                                         Some (PDict items) \<Rightarrow>
                                           (let capsule' = dict_update capsule items
                                            in (Inr (Some capsule'),
                                                st\<lparr>store := h3, schemas := r2,
                                                   log_records := log_records st @
                                                     map (\<lambda>hdlr. (hdlr, capsule')) (log_handlers st)\<rparr>))
                                       | _ \<Rightarrow> (Inl TypeError, st\<lparr>store := h3, schemas := r2\<rparr>))))))))"

section \<open>A concrete logger\<close>

text \<open>
  The example of the spec: a schema \<^verbatim>\<open>org.test.click\<close>, version 1, whose property
  \<^verbatim>\<open>x\<close> is an integer. The registry keeps the keys it knows, accepts a key again, and
  its validation rejects a payload that is no dictionary or whose \<^verbatim>\<open>x\<close> is no integer.
\<close>

definition click_ops :: "((string \<times> int) list, string \<times> int) registry_ops" where
  "click_ops =
     \<lparr>reg_register = (\<lambda>r doc. (Inr doc, if doc \<in> set r then r else r @ [doc])),
      reg_contains = (\<lambda>r key. (key \<in> set r, r)),
      reg_validate_event = (\<lambda>r schema_id version h d.
        case obj_at h d of
          Some (PDict items) \<Rightarrow>
            (case map_of items ''x'' of
               None \<Rightarrow> (None, r, h)
             | Some (PInt i) \<Rightarrow> (None, r, h)
             | Some _ \<Rightarrow> (Some (Raised ''ValidationError''), r, h))
        | _ \<Rightarrow> (Some (Raised ''ValidationError''), r, h))\<rparr>"

text \<open>
  Two callables of the required signature: \<open>mark_seen\<close> sets \<^verbatim>\<open>data["seen"] = True\<close>
  and returns \<^verbatim>\<open>data\<close>; \<open>failing_modifier\<close> raises.
\<close>

definition mark_seen :: modifier where
  "mark_seen =
     \<lparr>mod_id = 1, mod_callable = True, mod_hashable = True,
      mod_signature = Inr expected_signature,
      mod_call = (\<lambda>schema_id version h d.
        case obj_at h d of
          Some (PDict items) \<Rightarrow> (Inr d, h[d := PDict (AList.update ''seen'' (PBool True) items)])
        | _ \<Rightarrow> (Inl TypeError, h))\<rparr>"

definition failing_modifier :: modifier where
  "failing_modifier =
     \<lparr>mod_id = 2, mod_callable = True, mod_hashable = True,
      mod_signature = Inr expected_signature,
      mod_call = (\<lambda>schema_id version h d. (Inl (Raised ''RuntimeError''), h))\<rparr>"

text \<open>
  A callable whose parameters carry no annotations, and a callable for which
  \<^verbatim>\<open>inspect.signature\<close> finds no signature and raises \<^verbatim>\<open>ValueError\<close>, as the builtin
  \<^verbatim>\<open>max\<close>; called with the three keyword arguments it raises \<^verbatim>\<open>TypeError\<close>.
\<close>

definition untyped_modifier :: modifier where
  "untyped_modifier =
     \<lparr>mod_id = 3, mod_callable = True, mod_hashable = True,
      mod_signature = Inr (Signature
        [Parameter ''schema_id'' POSITIONAL_OR_KEYWORD None None,
         Parameter ''version'' POSITIONAL_OR_KEYWORD None None,
         Parameter ''data'' POSITIONAL_OR_KEYWORD None None] None),
      mod_call = (\<lambda>schema_id version h d. (Inr d, h))\<rparr>"

definition signatureless_callable :: modifier where
  "signatureless_callable =
     \<lparr>mod_id = 4, mod_callable = True, mod_hashable = True, mod_signature = Inl ValueError,
      mod_call = (\<lambda>schema_id version h d. (Inl TypeError, h))\<rparr>"

text \<open>
  A new logger, with the payload \<^verbatim>\<open>{"x": 5}\<close> at address 0 of the store, and the same
  logger after \<^verbatim>\<open>register_handler\<close> and \<^verbatim>\<open>register_event_schema\<close>.
\<close>

definition new_logger :: "(string \<times> int) list state" where
  "new_logger =
     \<lparr>store = [PDict [(''x'', PInt 5)]], schemas = [], handlers = Some [], modifiers = [],
      log_handlers = [], log_records = [], onceregistry = [], shown_warnings = []\<rparr>"

definition click_logger :: "(string \<times> int) list state" where
  "click_logger =
     \<lparr>store = [PDict [(''x'', PInt 5)]], schemas = [(''org.test.click'', 1)], handlers = Some [0],
      modifiers = [(Key_tuple ''org.test.click'' 1, [])],
      log_handlers = [0], log_records = [], onceregistry = [], shown_warnings = []\<rparr>"

text \<open>
  The logger after \<^verbatim>\<open>add_modifier(schema_id="org.test.click", version=1, modifier=mark_seen)\<close>.
\<close>

definition logger_with_mark_seen :: "(string \<times> int) list state" where
  "logger_with_mark_seen =
     snd (add_modifier click_logger (Some ''org.test.click'') (Some 1) mark_seen)"




text \<open>
  Loggers whose payload at address 0 defines a reserved key of the envelope:
  \<^verbatim>\<open>__schema__\<close>, \<^verbatim>\<open>__metadata_version__\<close>, \<^verbatim>\<open>__timestamp__\<close>.
\<close>

definition spoofing_logger :: "(string \<times> int) list state" where
  "spoofing_logger =
     click_logger\<lparr>store := [PDict [(''x'', PInt 5), (''__schema__'', PStr ''spoofed'')]]\<rparr>"

definition versioned_logger :: "(string \<times> int) list state" where
  "versioned_logger =
     click_logger\<lparr>store := [PDict [(''x'', PInt 5), (''__metadata_version__'', PInt 99)]]\<rparr>"

definition dated_logger :: "(string \<times> int) list state" where
  "dated_logger =
     click_logger\<lparr>store := [PDict [(''__timestamp__'', PStr ''never''), (''x'', PInt 5)]]\<rparr>"

section \<open>Notions for the properties\<close>

text \<open>The keys of the envelope.\<close>

definition reserved_keys :: "string list" where
  "reserved_keys = [''__timestamp__'', ''__schema__'', ''__schema_version__'', ''__metadata_version__'']"

text \<open>
  A modifier table all of whose keys are tuples \<^verbatim>\<open>(schema_id, version)\<close>, as every table
  is that \<open>register_event_schema\<close> filled.
\<close>

definition tuple_keyed :: "modifier_table \<Rightarrow> bool" where
  "tuple_keyed tbl = list_all (\<lambda>(k, ms). case k of Key_tuple i v \<Rightarrow> True | Key_str s \<Rightarrow> False) tbl"

text \<open>
  The keys that a call of \<open>add_modifier\<close> without a \<^verbatim>\<open>version\<close> addresses: every tuple
  key when \<^verbatim>\<open>schema_id\<close> is \<^verbatim>\<open>None\<close>, the tuple keys with that id otherwise.
\<close>

definition matches_schema :: "string option \<Rightarrow> pykey \<Rightarrow> bool" where
  "matches_schema schema_id k =
     (case k of
        Key_tuple i v \<Rightarrow> schema_id = None \<or> schema_id = Some i
      | Key_str s \<Rightarrow> False)"

text \<open>
  What a collaborator may touch when it is handed the object at \<open>d\<close> in the store \<open>h\<close>: it
  writes only to objects reachable from \<open>d\<close> and to objects it creates, and what it returns
  leads only to such objects. A modifier and the validation are confined when every call
  of theirs is.
\<close>

definition writes_within :: "heap \<Rightarrow> addr \<Rightarrow> heap \<Rightarrow> bool" where
  "writes_within h d h' =
     (length h \<le> length h' \<and> (\<forall>a < length h. a \<notin> reach h d \<longrightarrow> h' ! a = h ! a))"

definition returns_within :: "heap \<Rightarrow> addr \<Rightarrow> heap \<Rightarrow> addr \<Rightarrow> bool" where
  "returns_within h d h' d' = (\<forall>a \<in> reach h' d'. a \<in> reach h d \<or> length h \<le> a)"

definition confined_modifier :: "modifier \<Rightarrow> bool" where
  "confined_modifier m =
     (\<forall>schema_id version h d r h'. mod_call m schema_id version h d = (r, h') \<longrightarrow>
        writes_within h d h' \<and> (\<forall>d'. r = Inr d' \<longrightarrow> returns_within h d h' d'))"

definition confined_validation :: "('reg, 'doc) registry_ops \<Rightarrow> bool" where
  "confined_validation ops =
     (\<forall>r schema_id version h d e r' h'.
        reg_validate_event ops r schema_id version h d = (e, r', h') \<longrightarrow> writes_within h d h')"

text \<open>
  \<open>untouched h0 h\<close>: every object of the store \<open>h0\<close> is in \<open>h\<close> as it was;
  \<open>apart h0 h d\<close>: no object of \<open>h0\<close> is reachable from \<open>d\<close> in \<open>h\<close>.
\<close>

definition untouched :: "heap \<Rightarrow> heap \<Rightarrow> bool" where
  "untouched h0 h = (length h0 \<le> length h \<and> (\<forall>a < length h0. h ! a = h0 ! a))"

definition apart :: "heap \<Rightarrow> heap \<Rightarrow> addr \<Rightarrow> bool" where
  "apart h0 h d = (\<forall>a \<in> reach h d. length h0 \<le> a)"

text \<open>
  What the application does during the life of the process: it calls the public methods
  of the logger, in any order and with any arguments (what a call returns or raises is
  dropped here), and it changes its own objects in the store.
\<close>

datatype 'doc call =
    Register_event_schema 'doc
  | Register_handler handler
  | Remove_handler handler
  | Add_modifier "string option" "int option" modifier
  | Remove_modifier "string option" modifier
  | Emit datetime string int addr "datetime option"
  | Mutate "heap \<Rightarrow> heap"




section \<open>The deep copy\<close>

lemma refs_of_shift_obj: "set (refs_of_obj (shift_obj n ob)) = (\<lambda>a. a + n) ` set (refs_of_obj ob)"
proof (cases ob)
  case (PDict kvs)
  have "\<And>v. set (refs_of_val (shift_val n v)) = (\<lambda>a. a + n) ` set (refs_of_val v)"
    by (case_tac v) simp_all
  then show ?thesis
    using PDict by (auto simp: refs_of_obj_def split: prod.splits) force+
next
  case (PList vs)
  have "\<And>v. set (refs_of_val (shift_val n v)) = (\<lambda>a. a + n) ` set (refs_of_val v)"
    by (case_tac v) simp_all
  then show ?thesis
    using PList by (auto simp: refs_of_obj_def)
qed

lemma deepcopy_copies:
  "deepcopy h a = (h', a') \<Longrightarrow> a < length h \<Longrightarrow>
     obj_at h' a' = Some (shift_obj (length h) (h ! a))"
  by (auto simp: deepcopy_def obj_at_def nth_append)

lemma deepcopy_keeps_store:
  "deepcopy h a = (h', a') \<Longrightarrow> length h \<le> length h' \<and> (\<forall>b < length h. h' ! b = h ! b)"
  by (auto simp: deepcopy_def nth_append)

lemma deepcopy_reach_fresh:
  assumes "deepcopy h a = (h', a')" and "b \<in> reach h' a'"
  shows "length h \<le> b"
  using assms(2)
proof (induction rule: reach.induct)
  case reach_root
  from assms(1) show ?case by (auto simp: deepcopy_def)
next
  case (reach_step b c)
  from assms(1) have h': "h' = h @ map (shift_obj (length h)) h"
    by (auto simp: deepcopy_def)
  from reach_step have "b < length h'" "length h \<le> b" by simp_all
  then have "h' ! b = shift_obj (length h) (h ! (b - length h))"
    by (simp add: h' nth_append)
  with reach_step(3) show ?case
    by (auto simp: refs_of_shift_obj)
qed

section \<open>The concrete logger is reached through the interface\<close>

lemma click_logger_reached:
  "snd (register_event_schema click_ops (snd (register_handler new_logger 0)) (''org.test.click'', 1))
     = click_logger"
  by (simp add: register_event_schema_def register_handler_def new_logger_def click_logger_def
      click_ops_def)

section \<open>Emission without handlers\<close>

text \<open>
  Claim C4. When the trait \<open>handlers\<close> is \<^verbatim>\<open>None\<close> or the empty list, \<open>emit\<close> returns
  \<^verbatim>\<open>None\<close> and leaves the whole state as it was, whatever the registry, the modifiers,
  the schema key and the payload are: the registry object is in the state it had (no
  membership test reached it), the store is the same (no copy was made, no modifier
  ran), and no warning was recorded or shown.
\<close>

theorem emit_no_handlers:
  "handlers st = None \<or> handlers st = Some [] \<Longrightarrow>
     emit ops now st schema_id version data timestamp_override = (Inr None, st)"
  by (auto simp: emit_def)

theorem emit_no_handlers_witness:
  "emit click_ops (Datetime ''2022-08-11T22:46:01'')
     (click_logger\<lparr>handlers := None,
        modifiers := [(Key_tuple ''org.test.click'' 1, [failing_modifier])]\<rparr>)
     ''org.test.unknown'' 3 0 None
   = (Inr None,
      click_logger\<lparr>handlers := None,
        modifiers := [(Key_tuple ''org.test.click'' 1, [failing_modifier])]\<rparr>)"
  using emit_no_handlers [of "click_logger\<lparr>handlers := None,
        modifiers := [(Key_tuple ''org.test.click'' 1, [failing_modifier])]\<rparr>"]
  by simp

section \<open>Removing a modifier\<close>

lemma tuple_keyed_no_str: "tuple_keyed tbl \<Longrightarrow> map_of tbl (Key_str s) = None"
  by (induction tbl) (auto simp: tuple_keyed_def split: pykey.splits)

lemma tuple_keyed_update:
  "tuple_keyed tbl \<Longrightarrow> tuple_keyed (AList.update (Key_tuple i v) ms tbl)"
  by (induction tbl) (auto simp: tuple_keyed_def split: pykey.splits)

lemma remove_from_all_result:
  "fst (remove_from_all m tbl)
     = (if tbl = [] then None
        else if \<not> mod_hashable m then Some TypeError
        else if list_all (\<lambda>entry. set_contains (snd entry) m) tbl then None
        else Some KeyError)"
proof (induction tbl)
  case Nil
  show ?case by simp
next
  case (Cons entry tbl)
  obtain k ms where entry: "entry = (k, ms)" by (cases entry)
  obtain r rest where rest: "remove_from_all m tbl = (r, rest)"
    by (cases "remove_from_all m tbl")
  with Cons have r: "r = (if tbl = [] then None
        else if \<not> mod_hashable m then Some TypeError
        else if list_all (\<lambda>entry. set_contains (snd entry) m) tbl then None
        else Some KeyError)"
    by simp
  show ?case
  proof (cases "mod_hashable m")
    case False
    then show ?thesis by (simp add: entry set_remove_def)
  next
    case True
    then show ?thesis
      by (cases "set_contains ms m") (simp_all add: entry set_remove_def rest r)
  qed
qed

text \<open>
  Claim C7 (the code departs from it). \<open>remove_modifier\<close> with a \<^verbatim>\<open>schema_id\<close> looks the
  table up by the string \<^verbatim>\<open>schema_id\<close>, while the keys that \<open>register_event_schema\<close>
  enters are the tuples \<^verbatim>\<open>(schema_id, version)\<close>: in a table with tuple keys only, the
  call raises \<^verbatim>\<open>KeyError\<close> and removes nothing, also for the id of a registered schema
  whose set holds the modifier.
\<close>

theorem remove_modifier_schema_id_raises:
  "tuple_keyed (modifiers st) \<Longrightarrow> schema_id \<noteq> [] \<Longrightarrow>
     remove_modifier st (Some schema_id) m = (Some KeyError, st)"
  by (simp add: remove_modifier_def tuple_keyed_no_str)

theorem remove_modifier_schema_id_raises_witness:
  "map_of (modifiers (snd (add_modifier click_logger (Some ''org.test.click'') (Some 1) mark_seen)))
     (Key_tuple ''org.test.click'' 1) = Some [mark_seen]
   \<and> remove_modifier (snd (add_modifier click_logger (Some ''org.test.click'') (Some 1) mark_seen))
       (Some ''org.test.click'') mark_seen
     = (Some KeyError, snd (add_modifier click_logger (Some ''org.test.click'') (Some 1) mark_seen))"
proof -
  have st: "snd (add_modifier click_logger (Some ''org.test.click'') (Some 1) mark_seen)
      = click_logger\<lparr>modifiers := [(Key_tuple ''org.test.click'' 1, [mark_seen])]\<rparr>"
    by (simp add: add_modifier_def click_logger_def mark_seen_def scoped_key_def set_add_def
        set_with_def
        set_contains_def)
  have "tuple_keyed (modifiers (click_logger\<lparr>modifiers := [(Key_tuple ''org.test.click'' 1, [mark_seen])]\<rparr>))"
    by (simp add: tuple_keyed_def)
  from remove_modifier_schema_id_raises [OF this, of "''org.test.click''" mark_seen] st
  show ?thesis by simp
qed

text \<open>
  Claim C8 (the code departs from it). \<open>remove_modifier\<close> without a \<^verbatim>\<open>schema_id\<close> calls
  \<^verbatim>\<open>set.remove\<close> on every set of the table. On a set that does not hold the modifier
  \<^verbatim>\<open>set.remove\<close> raises \<^verbatim>\<open>KeyError\<close>, which the handler \<^verbatim>\<open>except ValueError\<close> does
  not catch: the call raises as soon as one key's set lacks the modifier (with
  \<^verbatim>\<open>TypeError\<close>, which the handler does not catch either, when the modifier is an object
  that cannot be hashed).
\<close>

theorem remove_modifier_everywhere_raises:
  "(k, ms) \<in> set (modifiers st) \<Longrightarrow> \<not> set_contains ms m \<Longrightarrow>
     fst (remove_modifier st None m) = Some (if mod_hashable m then KeyError else TypeError)"
proof -
  assume "(k, ms) \<in> set (modifiers st)" and "\<not> set_contains ms m"
  then have "\<not> list_all (\<lambda>entry. set_contains (snd entry) m) (modifiers st)"
    and "modifiers st \<noteq> []"
    by (force simp: list_all_iff)+
  then have "fst (remove_from_all m (modifiers st))
      = Some (if mod_hashable m then KeyError else TypeError)"
    by (simp add: remove_from_all_result)
  then show ?thesis
    by (cases "remove_from_all m (modifiers st)") (simp add: remove_modifier_def)
qed

theorem remove_modifier_everywhere_raises_witness:
  "fst (remove_modifier click_logger None mark_seen) = Some KeyError"
  using remove_modifier_everywhere_raises [of "Key_tuple ''org.test.click'' 1" "[]" click_logger mark_seen]
  by (simp add: click_logger_def set_contains_def mark_seen_def)

section \<open>Registering a schema again\<close>

lemma logger_with_mark_seen_eq:
  "logger_with_mark_seen
     = click_logger\<lparr>modifiers := [(Key_tuple ''org.test.click'' 1, [mark_seen])]\<rparr>"
  by (simp add: logger_with_mark_seen_def add_modifier_def click_logger_def mark_seen_def
      scoped_key_def set_add_def set_with_def set_contains_def)

text \<open>
  Claim C5 as stated fails: the registry \<open>click_ops\<close> accepts the key
  \<^verbatim>\<open>("org.test.click", 1)\<close> a second time, and the modifier added under that key is gone
  after the second \<open>register_event_schema\<close>.
\<close>

theorem register_again_keeps_modifiers_counterexample:
  "fst (reg_register click_ops (schemas logger_with_mark_seen) (''org.test.click'', 1))
     = Inr (''org.test.click'', 1)
   \<and> map_of (modifiers logger_with_mark_seen) (Key_tuple ''org.test.click'' 1) = Some [mark_seen]
   \<and> fst (register_event_schema click_ops logger_with_mark_seen (''org.test.click'', 1)) = None
   \<and> map_of (modifiers (snd (register_event_schema click_ops logger_with_mark_seen
         (''org.test.click'', 1)))) (Key_tuple ''org.test.click'' 1) = Some []"
  by (simp add: logger_with_mark_seen_eq register_event_schema_def click_ops_def click_logger_def)

text \<open>
  Claim C5, amended. Whenever the registry accepts the document and returns the key
  \<^verbatim>\<open>(schema_id, version)\<close>, \<open>register_event_schema\<close> returns normally, the modifier set
  of that key is the empty set afterwards (modifiers added under the key before are
  discarded), and the set of every other key is what it was.
\<close>

theorem register_event_schema_resets_modifiers:
  "reg_register ops (schemas st) schema = (Inr (schema_id, version), r) \<Longrightarrow>
     fst (register_event_schema ops st schema) = None
     \<and> map_of (modifiers (snd (register_event_schema ops st schema))) (Key_tuple schema_id version)
         = Some []
     \<and> (\<forall>k. k \<noteq> Key_tuple schema_id version \<longrightarrow>
           map_of (modifiers (snd (register_event_schema ops st schema))) k
             = map_of (modifiers st) k)"
  by (simp add: register_event_schema_def update_conv')

theorem register_event_schema_resets_modifiers_witness:
  "fst (register_event_schema click_ops logger_with_mark_seen (''org.test.click'', 1)) = None
   \<and> map_of (modifiers (snd (register_event_schema click_ops logger_with_mark_seen
         (''org.test.click'', 1)))) (Key_tuple ''org.test.click'' 1) = Some []
   \<and> map_of (modifiers (snd (register_event_schema click_ops logger_with_mark_seen
         (''org.test.click'', 1)))) (Key_tuple ''org.test.other'' 1)
       = map_of (modifiers logger_with_mark_seen) (Key_tuple ''org.test.other'' 1)"
proof -
  have "reg_register click_ops (schemas logger_with_mark_seen) (''org.test.click'', 1)
      = (Inr (''org.test.click'', 1), [(''org.test.click'', 1)])"
    by (simp add: logger_with_mark_seen_eq click_ops_def click_logger_def)
  from register_event_schema_resets_modifiers [OF this] show ?thesis
    by simp
qed

section \<open>The capsule of an accepted event\<close>

lemma map_of_rev_distinct: "distinct (map fst xs) \<Longrightarrow> map_of (rev xs) = map_of xs"
proof (induction xs)
  case Nil
  then show ?case by simp
next
  case (Cons p xs)
  then have "fst p \<notin> dom (map_of xs)" by (auto simp: dom_map_of_conv_image_fst)
  then have "map_of xs (fst p) = None" by blast
  with Cons show ?case
    by (cases p) (auto simp: map_add_def fun_eq_iff split: option.splits)
qed

lemma dict_update_keys: "fst ` set (dict_update d other) = fst ` set d \<union> fst ` set other"
  unfolding dict_update_def
proof (induction other arbitrary: d)
  case Nil
  then show ?case by simp
next
  case (Cons p other)
  obtain k v where p: "p = (k, v)" by (cases p)
  have "fst ` set (fold (\<lambda>(k, v). AList.update k v) ((k, v) # other) d)
      = fst ` set (fold (\<lambda>(k, v). AList.update k v) other (AList.update k v d))"
    by simp
  also have "\<dots> = fst ` set (AList.update k v d) \<union> fst ` set other"
    by (rule Cons.IH)
  also have "\<dots> = ({k} \<union> fst ` set d) \<union> fst ` set other"
    by (simp only: dom_update)
  also have "\<dots> = fst ` set d \<union> fst ` set ((k, v) # other)"
    by auto
  finally show ?case
    by (simp only: p)
qed

lemma dict_update_distinct: "distinct (map fst d) \<Longrightarrow> distinct (map fst (dict_update d other))"
  unfolding dict_update_def
  by (induction other arbitrary: d) (auto simp: distinct_update)

lemma dict_update_map_of:
  "map_of (dict_update d other) k = (case map_of (rev other) k of Some v \<Rightarrow> Some v | None \<Rightarrow> map_of d k)"
  unfolding dict_update_def
  by (induction other arbitrary: d) (auto simp: update_conv' map_add_def split: option.splits)

lemma dict_update_other_wins:
  "distinct (map fst other) \<Longrightarrow> map_of other k = Some v \<Longrightarrow> map_of (dict_update d other) k = Some v"
  by (simp add: dict_update_map_of map_of_rev_distinct)

lemma dict_update_base_stays:
  "k \<notin> fst ` set other \<Longrightarrow> map_of (dict_update d other) k = map_of d k"
proof -
  assume "k \<notin> fst ` set other"
  then have "k \<notin> fst ` set (rev other)" by simp
  then have "map_of (rev other) k = None" by (simp add: map_of_eq_None_iff)
  then show ?thesis by (simp add: dict_update_map_of)
qed

lemma emit_accepted:
  assumes "handlers st = Some hs" and "hs \<noteq> []"
    and "reg_contains ops (schemas st) (schema_id, version) = (True, r1)"
    and "map_of (modifiers st) (Key_tuple schema_id version) = Some ms"
    and "deepcopy (store st) data = (h1, c)"
    and "apply_modifiers ms schema_id version h1 c = (Inr d, h2)"
    and "reg_validate_event ops r1 schema_id version h2 d = (None, r2, h3)"
    and "obj_at h3 d = Some (PDict items)"
  shows "fst (emit ops now st schema_id version data timestamp_override)
    = Inr (Some (dict_update
        (empty_capsule (case timestamp_override of None \<Rightarrow> now | Some t \<Rightarrow> t) schema_id version)
        items))"
  using assms by (simp add: emit_def Let_def)

lemma empty_capsule_keys:
  "fst ` set (empty_capsule t schema_id version)
     = {''__timestamp__'', ''__schema__'', ''__schema_version__'', ''__metadata_version__''}"
  by (auto simp: empty_capsule_def)

lemma empty_capsule_distinct: "distinct (map fst (empty_capsule t schema_id version))"
  by (simp add: empty_capsule_def)

text \<open>
  Claim C1 as stated fails: the payload \<^verbatim>\<open>{"x": 5, "__schema__": "spoofed"}\<close> validates
  against the schema \<^verbatim>\<open>org.test.click\<close>, and the capsule returned for it has
  \<^verbatim>\<open>"spoofed"\<close> under \<^verbatim>\<open>__schema__\<close>, not the schema id given to \<open>emit\<close>.
\<close>

theorem emit_reserved_values_counterexample:
  "fst (emit click_ops (Datetime ''2022-08-11T22:46:01'') spoofing_logger ''org.test.click'' 1 0 None)
     = Inr (Some
         [(''__timestamp__'', PStr ''2022-08-11T22:46:01Z''),
          (''__schema__'', PStr ''spoofed''),
          (''__schema_version__'', PInt 1),
          (''__metadata_version__'', PInt 1),
          (''x'', PInt 5)])"
  by (simp add: emit_def click_ops_def click_logger_def spoofing_logger_def deepcopy_def obj_at_def
      empty_capsule_def dict_update_def EVENTS_METADATA_VERSION_def Let_def)

text \<open>
  Claim C1, amended. Let the logger have a handler, the registry know the key, the
  modifier table have an entry for it, and the copy of the payload pass the modifiers of
  the key and the validation, which leave the dictionary \<open>items\<close>. Then \<open>emit\<close> returns a
  capsule whose keys are exactly the four reserved keys and the keys of \<open>items\<close>; every
  field of \<open>items\<close> is in the capsule with its value; and each reserved key that \<open>items\<close>
  does not define has the value of the envelope: the timestamp's \<^verbatim>\<open>isoformat()\<close>
  followed by \<^verbatim>\<open>Z\<close>, the schema id, the version, and the metadata version 1.
\<close>

theorem emit_capsule:
  assumes "handlers st = Some hs" and "hs \<noteq> []"
    and "reg_contains ops (schemas st) (schema_id, version) = (True, r1)"
    and "map_of (modifiers st) (Key_tuple schema_id version) = Some ms"
    and "deepcopy (store st) data = (h1, c)"
    and "apply_modifiers ms schema_id version h1 c = (Inr d, h2)"
    and "reg_validate_event ops r1 schema_id version h2 d = (None, r2, h3)"
    and "obj_at h3 d = Some (PDict items)" and "distinct (map fst items)"
  shows "\<exists>capsule.
      fst (emit ops now st schema_id version data timestamp_override) = Inr (Some capsule)
    \<and> fst ` set capsule
        = {''__timestamp__'', ''__schema__'', ''__schema_version__'', ''__metadata_version__''}
          \<union> fst ` set items
    \<and> distinct (map fst capsule)
    \<and> (\<forall>k v. map_of items k = Some v \<longrightarrow> map_of capsule k = Some v)
    \<and> (''__timestamp__'' \<notin> fst ` set items \<longrightarrow>
         map_of capsule ''__timestamp__''
           = Some (PStr (isoformat (case timestamp_override of None \<Rightarrow> now | Some t \<Rightarrow> t) @ ''Z'')))
    \<and> (''__schema__'' \<notin> fst ` set items \<longrightarrow> map_of capsule ''__schema__'' = Some (PStr schema_id))
    \<and> (''__schema_version__'' \<notin> fst ` set items \<longrightarrow>
         map_of capsule ''__schema_version__'' = Some (PInt version))
    \<and> (''__metadata_version__'' \<notin> fst ` set items \<longrightarrow>
         map_of capsule ''__metadata_version__'' = Some (PInt 1))"
proof -
  let ?base = "empty_capsule (case timestamp_override of None \<Rightarrow> now | Some t \<Rightarrow> t) schema_id version"
  let ?capsule = "dict_update ?base items"
  have res: "fst (emit ops now st schema_id version data timestamp_override) = Inr (Some ?capsule)"
    using assms(1-8) by (rule emit_accepted)
  have keys: "fst ` set ?capsule
        = {''__timestamp__'', ''__schema__'', ''__schema_version__'', ''__metadata_version__''}
          \<union> fst ` set items"
    by (simp only: dict_update_keys empty_capsule_keys)
  have dist: "distinct (map fst ?capsule)"
    by (rule dict_update_distinct) (rule empty_capsule_distinct)
  have payload: "\<forall>k v. map_of items k = Some v \<longrightarrow> map_of ?capsule k = Some v"
    using assms(9) by (simp add: dict_update_other_wins)
  have base: "\<And>k. k \<notin> fst ` set items \<Longrightarrow> map_of ?capsule k = map_of ?base k"
    by (rule dict_update_base_stays)
  have b1: "''__timestamp__'' \<notin> fst ` set items \<longrightarrow>
         map_of ?capsule ''__timestamp__''
           = Some (PStr (isoformat (case timestamp_override of None \<Rightarrow> now | Some t \<Rightarrow> t) @ ''Z''))"
    using base by (simp add: empty_capsule_def)
  have b2: "''__schema__'' \<notin> fst ` set items \<longrightarrow> map_of ?capsule ''__schema__'' = Some (PStr schema_id)"
    using base by (simp add: empty_capsule_def)
  have b3: "''__schema_version__'' \<notin> fst ` set items \<longrightarrow>
         map_of ?capsule ''__schema_version__'' = Some (PInt version)"
    using base by (simp add: empty_capsule_def)
  have b4: "''__metadata_version__'' \<notin> fst ` set items \<longrightarrow>
         map_of ?capsule ''__metadata_version__'' = Some (PInt 1)"
    using base by (simp add: empty_capsule_def EVENTS_METADATA_VERSION_def)
  from res keys dist payload b1 b2 b3 b4 show ?thesis by blast
qed

theorem emit_capsule_witness:
  "\<exists>capsule.
      fst (emit click_ops (Datetime ''2022-08-11T22:46:01'') logger_with_mark_seen
             ''org.test.click'' 1 0 None) = Inr (Some capsule)
    \<and> fst ` set capsule
        = {''__timestamp__'', ''__schema__'', ''__schema_version__'', ''__metadata_version__'',
           ''x'', ''seen''}
    \<and> map_of capsule ''x'' = Some (PInt 5)
    \<and> map_of capsule ''seen'' = Some (PBool True)
    \<and> map_of capsule ''__timestamp__'' = Some (PStr ''2022-08-11T22:46:01Z'')
    \<and> map_of capsule ''__schema__'' = Some (PStr ''org.test.click'')
    \<and> map_of capsule ''__schema_version__'' = Some (PInt 1)
    \<and> map_of capsule ''__metadata_version__'' = Some (PInt 1)"
proof -
  let ?h2 = "[PDict [(''x'', PInt 5)], PDict [(''x'', PInt 5), (''seen'', PBool True)]]"
  have a1: "handlers logger_with_mark_seen = Some [0]"
    by (simp add: logger_with_mark_seen_eq click_logger_def)
  have a2: "[0::nat] \<noteq> []" by simp
  have a3: "reg_contains click_ops (schemas logger_with_mark_seen) (''org.test.click'', 1)
      = (True, [(''org.test.click'', 1)])"
    by (simp add: logger_with_mark_seen_eq click_logger_def click_ops_def)
  have a4: "map_of (modifiers logger_with_mark_seen) (Key_tuple ''org.test.click'' 1) = Some [mark_seen]"
    by (simp add: logger_with_mark_seen_eq)
  have a5: "deepcopy (store logger_with_mark_seen) 0
      = ([PDict [(''x'', PInt 5)], PDict [(''x'', PInt 5)]], 1)"
    by (simp add: logger_with_mark_seen_eq click_logger_def deepcopy_def)
  have a6: "apply_modifiers [mark_seen] ''org.test.click'' 1
      [PDict [(''x'', PInt 5)], PDict [(''x'', PInt 5)]] 1 = (Inr 1, ?h2)"
    by (simp add: mark_seen_def obj_at_def)
  have a7: "reg_validate_event click_ops [(''org.test.click'', 1)] ''org.test.click'' 1 ?h2 1
      = (None, [(''org.test.click'', 1)], ?h2)"
    by (simp add: click_ops_def obj_at_def)
  have a8: "obj_at ?h2 1 = Some (PDict [(''x'', PInt 5), (''seen'', PBool True)])"
    by (simp add: obj_at_def)
  have a9: "distinct (map fst [(''x'', PInt 5), (''seen'', PBool True)])" by simp
  from emit_capsule [OF a1 a2 a3 a4 a5 a6 a7 a8 a9, of "Datetime ''2022-08-11T22:46:01''" None]
  obtain capsule where
    c: "fst (emit click_ops (Datetime ''2022-08-11T22:46:01'') logger_with_mark_seen
             ''org.test.click'' 1 0 None) = Inr (Some capsule)"
    "fst ` set capsule
        = {''__timestamp__'', ''__schema__'', ''__schema_version__'', ''__metadata_version__''}
          \<union> fst ` set [(''x'', PInt 5), (''seen'', PBool True)]"
    "\<forall>k v. map_of [(''x'', PInt 5), (''seen'', PBool True)] k = Some v \<longrightarrow> map_of capsule k = Some v"
    "map_of capsule ''__timestamp__'' = Some (PStr ''2022-08-11T22:46:01Z'')"
    "map_of capsule ''__schema__'' = Some (PStr ''org.test.click'')"
    "map_of capsule ''__schema_version__'' = Some (PInt 1)"
    "map_of capsule ''__metadata_version__'' = Some (PInt 1)"
    by auto
  from c(3) have "map_of capsule ''x'' = Some (PInt 5)" "map_of capsule ''seen'' = Some (PBool True)"
    by simp_all
  with c show ?thesis by auto
qed

text \<open>
  Claim C2 as stated fails: for the payload \<^verbatim>\<open>{"x": 5, "__metadata_version__": 99}\<close> the
  capsule carries 99, the payload's value, under \<^verbatim>\<open>__metadata_version__\<close>, while the
  envelope's own value is \<open>EVENTS_METADATA_VERSION\<close>, that is 1.
\<close>

theorem emit_envelope_wins_counterexample:
  "fst (emit click_ops (Datetime ''2022-08-11T22:46:01'') versioned_logger ''org.test.click'' 1 0 None)
     = Inr (Some
         [(''__timestamp__'', PStr ''2022-08-11T22:46:01Z''),
          (''__schema__'', PStr ''org.test.click''),
          (''__schema_version__'', PInt 1),
          (''__metadata_version__'', PInt 99),
          (''x'', PInt 5)])
   \<and> PInt 99 \<noteq> PInt EVENTS_METADATA_VERSION"
  by (simp add: emit_def click_ops_def click_logger_def versioned_logger_def deepcopy_def obj_at_def
      empty_capsule_def dict_update_def EVENTS_METADATA_VERSION_def Let_def)

text \<open>
  Claim C2, amended. In an accepted emission whose validated payload \<open>items\<close> defines a
  reserved key, the capsule carries the payload's value for that key: \<^verbatim>\<open>capsule.update\<close>
  writes the payload over the envelope's entries.
\<close>

theorem emit_payload_wins_collision:
  assumes "handlers st = Some hs" and "hs \<noteq> []"
    and "reg_contains ops (schemas st) (schema_id, version) = (True, r1)"
    and "map_of (modifiers st) (Key_tuple schema_id version) = Some ms"
    and "deepcopy (store st) data = (h1, c)"
    and "apply_modifiers ms schema_id version h1 c = (Inr d, h2)"
    and "reg_validate_event ops r1 schema_id version h2 d = (None, r2, h3)"
    and "obj_at h3 d = Some (PDict items)" and "distinct (map fst items)"
    and "k \<in> set reserved_keys" and "map_of items k = Some v"
  shows "\<exists>capsule.
      fst (emit ops now st schema_id version data timestamp_override) = Inr (Some capsule)
    \<and> map_of capsule k = Some v"
proof -
  have "fst (emit ops now st schema_id version data timestamp_override)
      = Inr (Some (dict_update
          (empty_capsule (case timestamp_override of None \<Rightarrow> now | Some t \<Rightarrow> t) schema_id version)
          items))"
    using assms(1-8) by (rule emit_accepted)
  moreover have "map_of (dict_update
          (empty_capsule (case timestamp_override of None \<Rightarrow> now | Some t \<Rightarrow> t) schema_id version)
          items) k = Some v"
    using assms(9,11) by (rule dict_update_other_wins)
  ultimately show ?thesis by blast
qed

theorem emit_payload_wins_collision_witness:
  "''__timestamp__'' \<in> set reserved_keys
   \<and> (\<exists>capsule.
        fst (emit click_ops (Datetime ''2022-08-11T22:46:01'') dated_logger ''org.test.click'' 1 0 None)
          = Inr (Some capsule)
      \<and> map_of capsule ''__timestamp__'' = Some (PStr ''never''))"
proof -
  let ?items = "[(''__timestamp__'', PStr ''never''), (''x'', PInt 5)]"
  let ?h = "[PDict ?items, PDict ?items]"
  have a1: "handlers dated_logger = Some [0]"
    by (simp add: dated_logger_def click_logger_def)
  have a2: "[0::nat] \<noteq> []" by simp
  have a3: "reg_contains click_ops (schemas dated_logger) (''org.test.click'', 1)
      = (True, [(''org.test.click'', 1)])"
    by (simp add: dated_logger_def click_logger_def click_ops_def)
  have a4: "map_of (modifiers dated_logger) (Key_tuple ''org.test.click'' 1) = Some []"
    by (simp add: dated_logger_def click_logger_def)
  have a5: "deepcopy (store dated_logger) 0 = (?h, 1)"
    by (simp add: dated_logger_def click_logger_def deepcopy_def)
  have a6: "apply_modifiers [] ''org.test.click'' 1 ?h 1 = (Inr 1, ?h)"
    by simp
  have a7: "reg_validate_event click_ops [(''org.test.click'', 1)] ''org.test.click'' 1 ?h 1
      = (None, [(''org.test.click'', 1)], ?h)"
    by (simp add: click_ops_def obj_at_def)
  have a8: "obj_at ?h 1 = Some (PDict ?items)"
    by (simp add: obj_at_def)
  have a9: "distinct (map fst ?items)" by simp
  have a10: "''__timestamp__'' \<in> set reserved_keys" by (simp add: reserved_keys_def)
  have a11: "map_of ?items ''__timestamp__'' = Some (PStr ''never'')" by simp
  from emit_payload_wins_collision [OF a1 a2 a3 a4 a5 a6 a7 a8 a9 a10 a11,
      of "Datetime ''2022-08-11T22:46:01''" None] a10
  show ?thesis by simp
qed

section \<open>Where the errors of an emission come from\<close>

lemma apply_modifiers_error_origin:
  "fst (apply_modifiers ms schema_id version h d) = Inl e \<Longrightarrow>
     \<exists>m \<in> set ms. \<exists>h' d'. fst (mod_call m schema_id version h' d') = Inl e"
proof (induction ms arbitrary: h d)
  case Nil
  then show ?case by simp
next
  case (Cons m ms)
  obtain r h' where call: "mod_call m schema_id version h d = (r, h')"
    by (cases "mod_call m schema_id version h d")
  show ?case
  proof (cases r)
    case (Inl e')
    with call Cons.prems have "fst (mod_call m schema_id version h d) = Inl e" by simp
    then show ?thesis by auto
  next
    case (Inr d')
    with call Cons.prems have "fst (apply_modifiers ms schema_id version h' d') = Inl e" by simp
    from Cons.IH [OF this] show ?thesis by auto
  qed
qed

lemma emit_error_origin:
  assumes "fst (emit ops now st schema_id version data timestamp_override) = Inl e"
  shows "fst (reg_contains ops (schemas st) (schema_id, version)) \<and>
    ((e = KeyError \<and> map_of (modifiers st) (Key_tuple schema_id version) = None)
    \<or> (\<exists>ms. map_of (modifiers st) (Key_tuple schema_id version) = Some ms
          \<and> (\<exists>m \<in> set ms. \<exists>h d. fst (mod_call m schema_id version h d) = Inl e))
    \<or> (\<exists>r h d. fst (reg_validate_event ops r schema_id version h d) = Some e)
    \<or> (e = TypeError
          \<and> (\<exists>r h d r' h'. reg_validate_event ops r schema_id version h d = (None, r', h')
                \<and> (\<forall>items. obj_at h' d \<noteq> Some (PDict items)))))"
proof -
  obtain known r1 where k: "reg_contains ops (schemas st) (schema_id, version) = (known, r1)"
    by (cases "reg_contains ops (schemas st) (schema_id, version)")
  obtain h1 c where cp: "deepcopy (store st) data = (h1, c)"
    by (cases "deepcopy (store st) data")
  from assms k have sinks: "\<not> (handlers st = None \<or> handlers st = Some [])" and known
    by (auto simp: emit_def split: if_splits)
  show ?thesis
  proof (cases "map_of (modifiers st) (Key_tuple schema_id version)")
    case None
    with assms k cp sinks \<open>known\<close> show ?thesis by (simp add: emit_def)
  next
    case (Some ms)
    obtain r h2 where am: "apply_modifiers ms schema_id version h1 c = (r, h2)"
      by (cases "apply_modifiers ms schema_id version h1 c")
    show ?thesis
    proof (cases r)
      case (Inl e')
      with assms k cp sinks \<open>known\<close> Some am have "e' = e" by (simp add: emit_def)
      with Inl am have "fst (apply_modifiers ms schema_id version h1 c) = Inl e" by simp
      from apply_modifiers_error_origin [OF this] Some k \<open>known\<close> show ?thesis by auto
    next
      case (Inr d)
      obtain ev r2 h3 where v: "reg_validate_event ops r1 schema_id version h2 d = (ev, r2, h3)"
        by (cases "reg_validate_event ops r1 schema_id version h2 d")
      show ?thesis
      proof (cases ev)
        case (Some e')
        with assms k cp sinks \<open>known\<close> \<open>map_of (modifiers st) (Key_tuple schema_id version) = Some ms\<close>
          am Inr v have "e' = e" by (simp add: emit_def)
        with Some v have "fst (reg_validate_event ops r1 schema_id version h2 d) = Some e" by simp
        with k \<open>known\<close> show ?thesis by auto
      next
        case None
        with assms k cp sinks \<open>known\<close> \<open>map_of (modifiers st) (Key_tuple schema_id version) = Some ms\<close>
          am Inr v have "e = TypeError \<and> (\<forall>items. obj_at h3 d \<noteq> Some (PDict items))"
          by (auto simp: emit_def Let_def split: option.splits pyobj.splits)
        with None v have "\<exists>r h d r' h'. reg_validate_event ops r schema_id version h d = (None, r', h')
                \<and> (\<forall>items. obj_at h' d \<noteq> Some (PDict items))"
          by blast
        with k \<open>known\<close> \<open>e = TypeError \<and> (\<forall>items. obj_at h3 d \<noteq> Some (PDict items))\<close>
        show ?thesis by simp
      qed
    qed
  qed
qed

section \<open>The contract of a modifier\<close>

lemma tuple_keyed_keys: "tuple_keyed tbl \<Longrightarrow> k \<in> fst ` set tbl \<Longrightarrow> \<exists>i v. k = Key_tuple i v"
  by (induction tbl) (auto simp: tuple_keyed_def split: pykey.splits)

lemma set_with_contains: "set_contains (set_with m ms) m"
  by (simp add: set_with_def set_contains_def)

lemma set_with_idem: "set_with m (set_with m ms) = set_with m ms"
  using set_with_contains [of m ms] by (simp add: set_with_def [of m "set_with m ms"])

lemma add_to_matching_not_contract_error:
  "fst (add_to_matching schema_id m ks tbl) \<noteq> Some ModifierError"
  by (induction schema_id m ks tbl rule: add_to_matching.induct)
    (auto simp: set_add_def split: option.splits sum.splits if_splits)

lemma add_to_matching_unhashable:
  "\<not> mod_hashable m \<Longrightarrow> snd (add_to_matching schema_id m ks tbl) = tbl"
  by (induction schema_id m ks tbl rule: add_to_matching.induct)
    (auto simp: set_add_def split: option.splits)

lemma add_to_matching_effect:
  "mod_hashable m \<Longrightarrow> set ks \<subseteq> fst ` set tbl \<Longrightarrow> tuple_keyed tbl \<Longrightarrow>
     fst (add_to_matching schema_id m ks tbl) = None
     \<and> (\<forall>k. map_of (snd (add_to_matching schema_id m ks tbl)) k
           = (if k \<in> set ks \<and> matches_schema schema_id k
              then map_option (set_with m) (map_of tbl k) else map_of tbl k))"
proof (induction schema_id m ks tbl rule: add_to_matching.induct)
  case (1 schema_id m tbl)
  then show ?case by simp
next
  case (2 schema_id m i v ks tbl)
  let ?K = "Key_tuple i v"
  note hashable = "2.prems"(1)
  from "2.prems" have "?K \<in> fst ` set tbl" by simp
  then obtain ms where ms: "map_of tbl ?K = Some ms"
    by (cases "map_of tbl ?K") (auto simp: map_of_eq_None_iff)
  show ?case
  proof (cases "schema_id = None \<or> schema_id = Some i")
    case True
    let ?tbl1 = "AList.update ?K (set_with m ms) tbl"
    have sa: "set_add m ms = Inr (set_with m ms)"
      using hashable by (simp add: set_add_def)
    have sub: "set ks \<subseteq> fst ` set ?tbl1"
      using "2.prems"(2) by (auto simp: dom_update)
    have tk: "tuple_keyed ?tbl1"
      using "2.prems"(3) by (rule tuple_keyed_update)
    have step: "add_to_matching schema_id m (?K # ks) tbl = add_to_matching schema_id m ks ?tbl1"
      using True ms sa by auto
    from "2.IH"(1) [OF True ms sa hashable sub tk]
    have ih1: "fst (add_to_matching schema_id m ks ?tbl1) = None"
      and ih2: "\<And>k. map_of (snd (add_to_matching schema_id m ks ?tbl1)) k
           = (if k \<in> set ks \<and> matches_schema schema_id k
              then map_option (set_with m) (map_of ?tbl1 k) else map_of ?tbl1 k)"
      by simp_all
    have m1: "map_of ?tbl1 k = (if k = ?K then Some (set_with m ms) else map_of tbl k)" for k
      by (simp add: update_conv')
    have mk: "matches_schema schema_id ?K"
      using True by (simp add: matches_schema_def)
    have "map_of (snd (add_to_matching schema_id m ks ?tbl1)) k
           = (if k \<in> set (?K # ks) \<and> matches_schema schema_id k
              then map_option (set_with m) (map_of tbl k) else map_of tbl k)" for k
    proof (cases "k = ?K")
      case True
      then show ?thesis
        by (simp add: ih2 m1 ms mk set_with_idem)
    next
      case False
      then show ?thesis
        by (simp add: ih2 m1)
    qed
    with ih1 step show ?thesis by simp
  next
    case False
    then have step: "add_to_matching schema_id m (?K # ks) tbl = add_to_matching schema_id m ks tbl"
      by auto
    from False have nm: "\<not> matches_schema schema_id ?K"
      by (simp add: matches_schema_def)
    from "2.IH"(2) [OF False hashable] "2.prems"
    have ih1: "fst (add_to_matching schema_id m ks tbl) = None"
      and ih2: "\<And>k. map_of (snd (add_to_matching schema_id m ks tbl)) k
           = (if k \<in> set ks \<and> matches_schema schema_id k
              then map_option (set_with m) (map_of tbl k) else map_of tbl k)"
      by simp_all
    have "map_of (snd (add_to_matching schema_id m ks tbl)) k
           = (if k \<in> set (?K # ks) \<and> matches_schema schema_id k
              then map_option (set_with m) (map_of tbl k) else map_of tbl k)" for k
      using nm by (cases "k = ?K") (simp_all add: ih2)
    with ih1 step show ?thesis by simp
  qed
next
  case (3 schema_id m s ks tbl)
  from "3.prems" have "Key_str s \<in> fst ` set tbl" by simp
  with "3.prems"(3) tuple_keyed_keys have False by blast
  then show ?case ..
qed

lemma add_to_matching_all_keys:
  assumes "mod_hashable m" and "tuple_keyed tbl"
  shows "fst (add_to_matching schema_id m (map fst tbl) tbl) = None
     \<and> (\<forall>k. map_of (snd (add_to_matching schema_id m (map fst tbl) tbl)) k
           = map_option (\<lambda>ms. if matches_schema schema_id k then set_with m ms else ms) (map_of tbl k))"
proof -
  have sub: "set (map fst tbl) \<subseteq> fst ` set tbl" by simp
  note eff = add_to_matching_effect [OF assms(1) sub assms(2), of schema_id]
  have "map_of (snd (add_to_matching schema_id m (map fst tbl) tbl)) k
           = map_option (\<lambda>ms. if matches_schema schema_id k then set_with m ms else ms) (map_of tbl k)"
    for k
  proof (cases "map_of tbl k")
    case None
    with eff show ?thesis by simp
  next
    case (Some ms)
    then have "k \<in> set (map fst tbl)"
      by (metis map_of_eq_None_iff option.distinct(1) set_map)
    with eff Some show ?thesis by simp
  qed
  with eff show ?thesis by blast
qed


text \<open>
  Claim C6 as stated fails in its first two parts. For the callable
  \<open>signatureless_callable\<close>, whose signature \<^verbatim>\<open>inspect.signature\<close> cannot retrieve,
  \<open>add_modifier\<close> raises the \<^verbatim>\<open>ValueError\<close> of \<^verbatim>\<open>inspect.signature\<close>, not
  \<^verbatim>\<open>ModifierError\<close>. And \<open>mark_seen\<close> has exactly the required signature, yet
  \<open>add_modifier\<close> with a \<^verbatim>\<open>schema_id\<close> and \<^verbatim>\<open>version\<close> that were never registered
  raises \<^verbatim>\<open>KeyError\<close>.
\<close>

theorem add_modifier_succeeds_counterexample:
  "mod_callable signatureless_callable
   \<and> add_modifier click_logger None None signatureless_callable = (Some ValueError, click_logger)
   \<and> mod_callable mark_seen \<and> mod_signature mark_seen = Inr expected_signature
   \<and> add_modifier click_logger (Some ''org.test.unknown'') (Some 1) mark_seen
       = (Some KeyError, click_logger)"
  by (simp add: add_modifier_def signatureless_callable_def mark_seen_def scoped_key_def
      click_logger_def)

text \<open>
  Claim C6, amended, for a callable \<open>m\<close>. When \<^verbatim>\<open>inspect.signature\<close> raises, \<open>add_modifier\<close>
  raises that error; when it returns a signature other than the required one,
  \<open>add_modifier\<close> raises \<^verbatim>\<open>ModifierError\<close>; in both cases the state is as it was. With
  exactly the required signature \<open>add_modifier\<close> never raises \<^verbatim>\<open>ModifierError\<close> and
  changes nothing but the modifier table; an unhashable \<open>m\<close> changes nothing at all. For a
  hashable \<open>m\<close> and a table with tuple keys: with \<^verbatim>\<open>schema_id\<close> and \<^verbatim>\<open>version\<close> both
  given, the call raises \<^verbatim>\<open>KeyError\<close> and changes nothing when the key has no entry, and
  otherwise returns normally with \<open>m\<close> added to the set of that key and every other set as
  it was; without them it returns normally with \<open>m\<close> added to the set of every key that
  \<^verbatim>\<open>schema_id\<close> addresses and every other set as it was. And \<open>emit\<close> has no contract
  check of its own: when it raises \<^verbatim>\<open>ModifierError\<close>, a modifier of the key or the
  registry's validation raised it.
\<close>

theorem add_modifier_contract:
  assumes "mod_callable m"
  shows "(\<forall>e. mod_signature m = Inl e \<longrightarrow> add_modifier st schema_id version m = (Some e, st))
    \<and> (\<forall>sg. mod_signature m = Inr sg \<and> sg \<noteq> expected_signature \<longrightarrow>
            add_modifier st schema_id version m = (Some ModifierError, st))
    \<and> (mod_signature m = Inr expected_signature \<longrightarrow>
            fst (add_modifier st schema_id version m) \<noteq> Some ModifierError
          \<and> snd (add_modifier st schema_id version m)
              = st\<lparr>modifiers := modifiers (snd (add_modifier st schema_id version m))\<rparr>)
    \<and> (mod_signature m = Inr expected_signature \<and> \<not> mod_hashable m \<longrightarrow>
            snd (add_modifier st schema_id version m) = st)
    \<and> (mod_signature m = Inr expected_signature \<and> mod_hashable m \<and> tuple_keyed (modifiers st) \<longrightarrow>
          (case scoped_key schema_id version of
             Some (sid, ver) \<Rightarrow>
               (case map_of (modifiers st) (Key_tuple sid ver) of
                  None \<Rightarrow> add_modifier st schema_id version m = (Some KeyError, st)
                | Some ms \<Rightarrow>
                    fst (add_modifier st schema_id version m) = None
                  \<and> (\<forall>k. map_of (modifiers (snd (add_modifier st schema_id version m))) k
                        = (if k = Key_tuple sid ver then Some (set_with m ms)
                           else map_of (modifiers st) k)))
           | None \<Rightarrow>
               fst (add_modifier st schema_id version m) = None
             \<and> (\<forall>k. map_of (modifiers (snd (add_modifier st schema_id version m))) k
                   = map_option (\<lambda>ms. if matches_schema schema_id k then set_with m ms else ms)
                       (map_of (modifiers st) k))))
    \<and> (\<forall>(ops :: ('r, 'd) registry_ops) now (st' :: 'r state) sid ver data ts.
          fst (emit ops now st' sid ver data ts) = Inl ModifierError \<longrightarrow>
            (\<exists>ms. map_of (modifiers st') (Key_tuple sid ver) = Some ms
               \<and> (\<exists>m' \<in> set ms. \<exists>h d. fst (mod_call m' sid ver h d) = Inl ModifierError))
            \<or> (\<exists>r h d. fst (reg_validate_event ops r sid ver h d) = Some ModifierError))"
proof -
  let ?res = "add_modifier st schema_id version m"
  let ?loop = "add_to_matching schema_id m (map fst (modifiers st)) (modifiers st)"
  have 1: "add_modifier st schema_id version m = (Some e, st)" if "mod_signature m = Inl e" for e
    using assms that by (simp add: add_modifier_def)
  have 2: "add_modifier st schema_id version m = (Some ModifierError, st)"
    if "mod_signature m = Inr sg \<and> sg \<noteq> expected_signature" for sg
    using assms that by (simp add: add_modifier_def)
  have conf: "?res =
      (case scoped_key schema_id version of
         Some (sid, ver) \<Rightarrow>
           (case map_of (modifiers st) (Key_tuple sid ver) of
              None \<Rightarrow> (Some KeyError, st)
            | Some ms \<Rightarrow>
                (case set_add m ms of
                   Inl e \<Rightarrow> (Some e, st)
                 | Inr ms' \<Rightarrow>
                     (None, st\<lparr>modifiers := AList.update (Key_tuple sid ver) ms' (modifiers st)\<rparr>)))
       | None \<Rightarrow> (fst ?loop, st\<lparr>modifiers := snd ?loop\<rparr>))"
    if "mod_signature m = Inr expected_signature"
    using assms that by (simp add: add_modifier_def split: option.splits prod.splits)
  have 3: "fst ?res \<noteq> Some ModifierError \<and> snd ?res = st\<lparr>modifiers := modifiers (snd ?res)\<rparr>"
    if sig: "mod_signature m = Inr expected_signature"
  proof (cases "scoped_key schema_id version")
    case None
    with conf [OF sig] add_to_matching_not_contract_error [of schema_id m "map fst (modifiers st)" "modifiers st"]
    show ?thesis by simp
  next
    case (Some key)
    with conf [OF sig] show ?thesis
      by (cases key) (auto simp: set_add_def split: option.splits)
  qed
  have 4: "snd ?res = st" if "mod_signature m = Inr expected_signature \<and> \<not> mod_hashable m"
  proof (cases "scoped_key schema_id version")
    case None
    with conf that add_to_matching_unhashable [of m schema_id "map fst (modifiers st)" "modifiers st"]
    show ?thesis by simp
  next
    case (Some key)
    with conf that show ?thesis
      by (cases key) (auto simp: set_add_def split: option.splits)
  qed
  have 5: "(case scoped_key schema_id version of
             Some (sid, ver) \<Rightarrow>
               (case map_of (modifiers st) (Key_tuple sid ver) of
                  None \<Rightarrow> ?res = (Some KeyError, st)
                | Some ms \<Rightarrow>
                    fst ?res = None
                  \<and> (\<forall>k. map_of (modifiers (snd ?res)) k
                        = (if k = Key_tuple sid ver then Some (set_with m ms)
                           else map_of (modifiers st) k)))
           | None \<Rightarrow>
               fst ?res = None
             \<and> (\<forall>k. map_of (modifiers (snd ?res)) k
                   = map_option (\<lambda>ms. if matches_schema schema_id k then set_with m ms else ms)
                       (map_of (modifiers st) k)))"
    if h: "mod_signature m = Inr expected_signature \<and> mod_hashable m \<and> tuple_keyed (modifiers st)"
  proof (cases "scoped_key schema_id version")
    case None
    from h have "mod_hashable m" and "tuple_keyed (modifiers st)" by simp_all
    from add_to_matching_all_keys [OF this, of schema_id] conf h None
    show ?thesis by simp
  next
    case (Some key)
    obtain sid ver where key: "key = (sid, ver)" by (cases key)
    from h have sa: "set_add m ms = Inr (set_with m ms)" for ms
      by (simp add: set_add_def)
    show ?thesis
    proof (cases "map_of (modifiers st) (Key_tuple sid ver)")
      case None
      with conf h Some key show ?thesis by simp
    next
      case (Some ms)
      with conf h \<open>scoped_key schema_id version = Some key\<close> key sa show ?thesis
        by (simp add: update_conv')
    qed
  qed
  have 6: "(\<exists>ms. map_of (modifiers st') (Key_tuple sid ver) = Some ms
               \<and> (\<exists>m' \<in> set ms. \<exists>h d. fst (mod_call m' sid ver h d) = Inl ModifierError))
            \<or> (\<exists>r h d. fst (reg_validate_event ops r sid ver h d) = Some ModifierError)"
    if "fst (emit ops now st' sid ver data ts) = Inl ModifierError"
    for ops :: "('r, 'd) registry_ops" and now and st' :: "'r state" and sid ver data ts
    using emit_error_origin [OF that] by auto
  from 1 2 3 4 5 6 show ?thesis by blast
qed


theorem add_modifier_contract_witness:
  "add_modifier click_logger None None signatureless_callable = (Some ValueError, click_logger)
   \<and> add_modifier click_logger None None untyped_modifier = (Some ModifierError, click_logger)
   \<and> fst (add_modifier click_logger None None mark_seen) = None
   \<and> map_of (modifiers (snd (add_modifier click_logger None None mark_seen)))
         (Key_tuple ''org.test.click'' 1) = Some [mark_seen]
   \<and> fst (add_modifier click_logger (Some ''org.test.click'') (Some 1) mark_seen) = None
   \<and> map_of (modifiers (snd (add_modifier click_logger (Some ''org.test.click'') (Some 1) mark_seen)))
         (Key_tuple ''org.test.click'' 1) = Some [mark_seen]
   \<and> add_modifier click_logger (Some ''org.test.unknown'') (Some 1) mark_seen
       = (Some KeyError, click_logger)"
proof -
  let ?K = "Key_tuple ''org.test.click'' 1"
  have s: "mod_callable signatureless_callable" "mod_signature signatureless_callable = Inl ValueError"
    by (simp_all add: signatureless_callable_def)
  have u: "mod_callable untyped_modifier"
    "mod_signature untyped_modifier = Inr (Signature
        [Parameter ''schema_id'' POSITIONAL_OR_KEYWORD None None,
         Parameter ''version'' POSITIONAL_OR_KEYWORD None None,
         Parameter ''data'' POSITIONAL_OR_KEYWORD None None] None)
     \<and> Signature
        [Parameter ''schema_id'' POSITIONAL_OR_KEYWORD None None,
         Parameter ''version'' POSITIONAL_OR_KEYWORD None None,
         Parameter ''data'' POSITIONAL_OR_KEYWORD None None] None \<noteq> expected_signature"
    by (simp_all add: untyped_modifier_def expected_signature_def)
  have m: "mod_callable mark_seen"
    and mh: "mod_signature mark_seen = Inr expected_signature \<and> mod_hashable mark_seen
      \<and> tuple_keyed (modifiers click_logger)"
    by (simp_all add: mark_seen_def click_logger_def tuple_keyed_def)
  have tbl: "map_of (modifiers click_logger) ?K = Some []"
    "map_of (modifiers click_logger) (Key_tuple ''org.test.unknown'' 1) = None"
    by (simp_all add: click_logger_def)
  have sw: "set_with mark_seen [] = [mark_seen]"
    by (simp add: set_with_def set_contains_def)
  have 1: "add_modifier click_logger None None signatureless_callable = (Some ValueError, click_logger)"
    using add_modifier_contract [OF s(1), of click_logger None None, THEN conjunct1] s(2) by blast
  have 2: "add_modifier click_logger None None untyped_modifier = (Some ModifierError, click_logger)"
    using add_modifier_contract [OF u(1), of click_logger None None, THEN conjunct2, THEN conjunct1] u(2)
    by blast
  note c5 = add_modifier_contract [OF m, THEN conjunct2, THEN conjunct2, THEN conjunct2,
      THEN conjunct2, THEN conjunct1, rule_format, OF mh]
  have 3: "fst (add_modifier click_logger None None mark_seen) = None
      \<and> map_of (modifiers (snd (add_modifier click_logger None None mark_seen))) ?K = Some [mark_seen]"
    using c5 [of None None] tbl(1) sw
    by (simp add: scoped_key_def matches_schema_def)
  have 4: "fst (add_modifier click_logger (Some ''org.test.click'') (Some 1) mark_seen) = None
      \<and> map_of (modifiers (snd (add_modifier click_logger (Some ''org.test.click'') (Some 1) mark_seen)))
          ?K = Some [mark_seen]"
    using c5 [of "Some ''org.test.click''" "Some 1"] tbl(1) sw
    by (simp add: scoped_key_def)
  have 5: "add_modifier click_logger (Some ''org.test.unknown'') (Some 1) mark_seen
       = (Some KeyError, click_logger)"
    using c5 [of "Some ''org.test.unknown''" "Some 1"] tbl(2)
    by (simp add: scoped_key_def)
  from 1 2 3 4 5 show ?thesis by simp
qed


section \<open>Which steps of an emission raise\<close>








section \<open>The caller's payload\<close>

lemma untouched_write:
  "untouched h0 h \<Longrightarrow> apart h0 h d \<Longrightarrow> writes_within h d h' \<Longrightarrow> untouched h0 h'"
proof -
  assume u: "untouched h0 h" and a: "apart h0 h d" and w: "writes_within h d h'"
  have "h' ! b = h0 ! b" if "b < length h0" for b
  proof -
    from that u have "b < length h" and "h ! b = h0 ! b" by (auto simp: untouched_def)
    moreover from that a have "b \<notin> reach h d" by (auto simp: apart_def)
    ultimately show ?thesis using w by (simp add: writes_within_def)
  qed
  moreover from u w have "length h0 \<le> length h'" by (simp add: untouched_def writes_within_def)
  ultimately show ?thesis by (simp add: untouched_def)
qed

lemma apart_return:
  "untouched h0 h \<Longrightarrow> apart h0 h d \<Longrightarrow> returns_within h d h' d' \<Longrightarrow> apart h0 h' d'"
  unfolding untouched_def apart_def returns_within_def
  by (meson le_trans)

lemma apply_modifiers_untouched:
  assumes "list_all confined_modifier ms" and "untouched h0 h" and "apart h0 h d"
    and "apply_modifiers ms schema_id version h d = (r, h')"
  shows "untouched h0 h' \<and> (\<forall>d'. r = Inr d' \<longrightarrow> apart h0 h' d')"
  using assms
proof (induction ms arbitrary: h d)
  case Nil
  then show ?case by auto
next
  case (Cons m ms)
  obtain r1 h1 where call: "mod_call m schema_id version h d = (r1, h1)"
    by (cases "mod_call m schema_id version h d")
  from Cons.prems(1) have cm: "confined_modifier m" and rest: "list_all confined_modifier ms"
    by simp_all
  from cm call have w: "writes_within h d h1"
    and ret: "\<And>d'. r1 = Inr d' \<Longrightarrow> returns_within h d h1 d'"
    unfolding confined_modifier_def by blast+
  from Cons.prems(2,3) w have u1: "untouched h0 h1" by (rule untouched_write)
  show ?case
  proof (cases r1)
    case (Inl e)
    with call Cons.prems(4) have "r = Inl e" "h' = h1" by simp_all
    with u1 show ?thesis by simp
  next
    case (Inr d1)
    from Cons.prems(2,3) ret [OF Inr] have a1: "apart h0 h1 d1" by (rule apart_return)
    from Inr call Cons.prems(4) have "apply_modifiers ms schema_id version h1 d1 = (r, h')"
      by simp
    from Cons.IH [OF rest u1 a1 this] show ?thesis .
  qed
qed

lemma deepcopy_untouched:
  "deepcopy h a = (h', a') \<Longrightarrow> untouched h h' \<and> apart h h' a'"
proof -
  assume cp: "deepcopy h a = (h', a')"
  from deepcopy_keeps_store [OF cp] have "untouched h h'" by (simp add: untouched_def)
  moreover from deepcopy_reach_fresh [OF cp] have "apart h h' a'" by (simp add: apart_def)
  ultimately show ?thesis by simp
qed

text \<open>
  Claim C9. With confined modifiers under the key and a confined validation, every object
  that was in the store before the call (the caller's payload and all its nested
  dictionaries and lists among them) is in the store unchanged after \<open>emit\<close>, whether it
  returns or raises: the modifiers and the validation get the deep copy, whose objects
  are all new.
\<close>

theorem emit_leaves_payload_unchanged:
  assumes "\<forall>ms. map_of (modifiers st) (Key_tuple schema_id version) = Some ms \<longrightarrow>
             list_all confined_modifier ms"
    and "confined_validation ops"
  shows "length (store st)
           \<le> length (store (snd (emit ops now st schema_id version data timestamp_override)))
    \<and> (\<forall>a < length (store st).
          store (snd (emit ops now st schema_id version data timestamp_override)) ! a = store st ! a)"
proof -
  let ?st' = "snd (emit ops now st schema_id version data timestamp_override)"
  have "untouched (store st) (store ?st')"
  proof (cases "handlers st = None \<or> handlers st = Some []")
    case True
    then show ?thesis by (auto simp: emit_def untouched_def)
  next
    case False
    then obtain hs where sinks: "handlers st = Some hs" "hs \<noteq> []"
      by (cases "handlers st") auto
    obtain known r1 where k: "reg_contains ops (schemas st) (schema_id, version) = (known, r1)"
      by (cases "reg_contains ops (schemas st) (schema_id, version)")
    show ?thesis
    proof (cases known)
      case False
      with sinks k show ?thesis by (simp add: emit_def untouched_def warn_def)
    next
      case True
      obtain h1 c where cp: "deepcopy (store st) data = (h1, c)"
        by (cases "deepcopy (store st) data")
      from deepcopy_untouched [OF cp] have u1: "untouched (store st) h1" and a1: "apart (store st) h1 c"
        by simp_all
      show ?thesis
      proof (cases "map_of (modifiers st) (Key_tuple schema_id version)")
        case None
        with sinks k True cp u1 show ?thesis by (simp add: emit_def)
      next
        case (Some ms)
        with assms(1) have conf: "list_all confined_modifier ms" by simp
        obtain r h2 where am: "apply_modifiers ms schema_id version h1 c = (r, h2)"
          by (cases "apply_modifiers ms schema_id version h1 c")
        from apply_modifiers_untouched [OF conf u1 a1 am]
        have u2: "untouched (store st) h2" and a2: "\<And>d. r = Inr d \<Longrightarrow> apart (store st) h2 d"
          by simp_all
        show ?thesis
        proof (cases r)
          case (Inl e)
          with sinks k True cp Some am u2 show ?thesis by (simp add: emit_def)
        next
          case (Inr d)
          obtain ev r2 h3 where v: "reg_validate_event ops r1 schema_id version h2 d = (ev, r2, h3)"
            by (cases "reg_validate_event ops r1 schema_id version h2 d")
          with assms(2) have "writes_within h2 d h3"
            unfolding confined_validation_def by blast
          with u2 a2 [OF Inr] have u3: "untouched (store st) h3" by (rule untouched_write)
          from sinks k True cp Some am Inr v u3 show ?thesis
            by (cases ev) (auto simp: emit_def Let_def split: option.splits pyobj.splits)
        qed
      qed
    qed
  qed
  then show ?thesis by (simp add: untouched_def)
qed

lemma reach_shrinks:
  assumes "length h' = length h"
    and "\<And>b. b < length h \<Longrightarrow> set (refs_of_obj (h' ! b)) \<subseteq> set (refs_of_obj (h ! b))"
    and "a \<in> reach h' d"
  shows "a \<in> reach h d"
  using assms(3)
proof (induction rule: reach.induct)
  case reach_root
  show ?case by (rule reach.reach_root)
next
  case (reach_step b c)
  from reach_step(2) assms(1) have "b < length h" by simp
  with reach_step(3) assms(2) have "c \<in> set (refs_of_obj (h ! b))" by blast
  with reach_step.IH \<open>b < length h\<close> show ?case by (rule reach.reach_step)
qed

lemma refs_of_update_atom:
  "refs_of_val v = [] \<Longrightarrow>
     set (refs_of_obj (PDict (AList.update k v items))) \<subseteq> set (refs_of_obj (PDict items))"
  by (induction items) (auto simp: refs_of_obj_def)

lemma mark_seen_confined: "confined_modifier mark_seen"
  unfolding confined_modifier_def
proof (intro allI impI)
  fix schema_id version h d r h'
  assume call: "mod_call mark_seen schema_id version h d = (r, h')"
  show "writes_within h d h' \<and> (\<forall>d'. r = Inr d' \<longrightarrow> returns_within h d h' d')"
  proof (cases "\<exists>items. obj_at h d = Some (PDict items)")
    case True
    then obtain items where items: "obj_at h d = Some (PDict items)" ..
    then have d: "d < length h" "h ! d = PDict items"
      by (auto simp: obj_at_def split: if_splits)
    from call items have r: "r = Inr d"
      and h': "h' = h[d := PDict (AList.update ''seen'' (PBool True) items)]"
      by (simp_all add: mark_seen_def)
    have "d \<in> reach h d" by (rule reach.reach_root)
    then have "h' ! a = h ! a" if "a \<notin> reach h d" for a
      using that by (cases "a = d") (simp_all add: h')
    then have w: "writes_within h d h'"
      by (simp add: writes_within_def h')
    have sub: "set (refs_of_obj (h' ! b)) \<subseteq> set (refs_of_obj (h ! b))" if "b < length h" for b
    proof (cases "b = d")
      case True
      with d h' refs_of_update_atom [of "PBool True" "''seen''" items] show ?thesis by simp
    next
      case False
      then show ?thesis by (simp add: h')
    qed
    have "returns_within h d h' d"
      unfolding returns_within_def
    proof
      fix a assume "a \<in> reach h' d"
      with reach_shrinks [of h' h _ d] sub h' have "a \<in> reach h d" by simp
      then show "a \<in> reach h d \<or> length h \<le> a" ..
    qed
    with w r show ?thesis by simp
  next
    case False
    with call have "r = Inl TypeError" and "h' = h"
      by (auto simp: mark_seen_def split: option.splits pyobj.splits)
    then show ?thesis by (simp add: writes_within_def)
  qed
qed

lemma click_ops_confined: "confined_validation click_ops"
  by (auto simp: confined_validation_def click_ops_def writes_within_def
      split: option.splits pyobj.splits pyval.splits)

theorem emit_leaves_payload_unchanged_witness:
  "store (snd (emit click_ops (Datetime ''2022-08-11T22:46:01'') logger_with_mark_seen
                 ''org.test.click'' 1 0 None)) ! 0
     = PDict [(''x'', PInt 5)]
   \<and> store (snd (emit click_ops (Datetime ''2022-08-11T22:46:01'') logger_with_mark_seen
                 ''org.test.click'' 1 0 None)) ! 1
     = PDict [(''x'', PInt 5), (''seen'', PBool True)]"
proof -
  have a1: "\<forall>ms. map_of (modifiers logger_with_mark_seen) (Key_tuple ''org.test.click'' 1) = Some ms
      \<longrightarrow> list_all confined_modifier ms"
    by (simp add: logger_with_mark_seen_eq mark_seen_confined)
  have st: "store logger_with_mark_seen = [PDict [(''x'', PInt 5)]]"
    by (simp add: logger_with_mark_seen_eq click_logger_def)
  from emit_leaves_payload_unchanged [OF a1 click_ops_confined, of "Datetime ''2022-08-11T22:46:01''" 0 None]
  have "store (snd (emit click_ops (Datetime ''2022-08-11T22:46:01'') logger_with_mark_seen
                 ''org.test.click'' 1 0 None)) ! 0 = PDict [(''x'', PInt 5)]"
    by (simp add: st)
  moreover have "store (snd (emit click_ops (Datetime ''2022-08-11T22:46:01'') logger_with_mark_seen
                 ''org.test.click'' 1 0 None)) ! 1
     = PDict [(''x'', PInt 5), (''seen'', PBool True)]"
    by (simp add: logger_with_mark_seen_eq emit_def click_logger_def click_ops_def deepcopy_def
        obj_at_def mark_seen_def Let_def)
  ultimately show ?thesis by simp
qed

section \<open>The warning of an unregistered schema, once in the life of the process\<close>

subsection \<open>The text of the warning names its key\<close>














subsection \<open>The life of the process\<close>











subsection \<open>Emission for an unregistered schema\<close>




end
